theory Spec2Isabelle
  imports Main
begin

section \<open>JavaScript values as \<open>lib/Hab.js\<close> observes them\<close>

text \<open>
  \<open>Hab.exec\<close> receives arbitrary JavaScript values. Of a value it observes the result of
  \<open>typeof\<close>, its truthiness, the string form of a string or number, and, of an object,
  its enumerable properties in \<open>for ... in\<close> order. Objects are mutable and may be passed
  more than once (or be reachable from one another), so an object value is a reference into
  a store.

  Numbers are IEEE doubles in JavaScript. Their arithmetic plays no role here: the code only
  tests a number for truthiness and calls \<open>toString\<close> on it, so the number type is a
  parameter \<open>'n\<close> and the two operations (with the literal \<open>1024 * 1024\<close>) are supplied
  as a \<open>number_ops\<close> record.

  Strings are lists of characters standing for UTF-16 code units; \<open>length\<close> is the
  \<open>.length\<close> of the source.

  Outside the model: properties that an object inherits or that are not enumerable (an
  option map is taken as an object literal, so \<open>key in obj\<close> and \<open>for ... in\<close> see its own
  properties only), accessor properties, the special key \<open>__proto__\<close>, and the
  \<open>logger.debug\<close> line of \<open>exec\<close>, whose module \<open>./logger\<close> is not part of the sources at
  hand. The output that \<open>child_process\<close> passes to the callback is taken as a string, as it
  is under the default encoding.
\<close>

type_synonym ref = nat

datatype 'n jsval =
    VUndefined
  | VNull
  | VBool bool
  | VNum 'n
  | VStr string
  | VObj ref
  | VFunction ref
  | VSymbol nat
  | VBigInt int

text \<open>An object: its enumerable string-keyed properties in \<open>for ... in\<close> order.
  An array is the object whose keys are its indices.\<close>

type_synonym 'n obj = "(string \<times> 'n jsval) list"

type_synonym 'n heap = "ref \<Rightarrow> 'n obj"

record 'n number_ops =
  num_truthy :: "'n \<Rightarrow> bool"
  num_toString :: "'n \<Rightarrow> string"
  num_of_nat :: "nat \<Rightarrow> 'n"

datatype js_type =
  TUndefined | TObject | TBoolean | TNumber | TString | TFunction | TSymbol | TBigint

fun typeof :: "'n jsval \<Rightarrow> js_type" where
  "typeof VUndefined = TUndefined"
| "typeof VNull = TObject"
| "typeof (VBool b) = TBoolean"
| "typeof (VNum n) = TNumber"
| "typeof (VStr s) = TString"
| "typeof (VObj r) = TObject"
| "typeof (VFunction r) = TFunction"
| "typeof (VSymbol k) = TSymbol"
| "typeof (VBigInt i) = TBigint"

text \<open>\<open>ToBoolean\<close>: what \<open>while (arg = ...)\<close>, \<open>if (x)\<close>, \<open>!x\<close> and \<open>Boolean(x)\<close> test.\<close>

fun ToBoolean :: "'n number_ops \<Rightarrow> 'n jsval \<Rightarrow> bool" where
  "ToBoolean N VUndefined = False"
| "ToBoolean N VNull = False"
| "ToBoolean N (VBool b) = b"
| "ToBoolean N (VNum n) = num_truthy N n"
| "ToBoolean N (VStr s) = (s \<noteq> [])"
| "ToBoolean N (VObj r) = True"
| "ToBoolean N (VFunction r) = True"
| "ToBoolean N (VSymbol k) = True"
| "ToBoolean N (VBigInt i) = (i \<noteq> 0)"

subsection \<open>Property access\<close>

definition has_prop :: "string \<Rightarrow> 'n obj \<Rightarrow> bool" where
  \<comment> \<open>\<open>key in obj\<close>\<close>
  "has_prop k ob = (map_of ob k \<noteq> None)"

definition get_prop :: "string \<Rightarrow> 'n obj \<Rightarrow> 'n jsval" where
  \<comment> \<open>\<open>obj[key]\<close>: a missing property reads as \<open>undefined\<close>\<close>
  "get_prop k ob = (case map_of ob k of None \<Rightarrow> VUndefined | Some v \<Rightarrow> v)"

definition delete_prop :: "string \<Rightarrow> 'n obj \<Rightarrow> 'n obj" where
  \<comment> \<open>\<open>delete obj[key]\<close>: the other properties keep their order\<close>
  "delete_prop k ob = filter (\<lambda>kv. fst kv \<noteq> k) ob"

fun set_prop :: "string \<Rightarrow> 'n jsval \<Rightarrow> 'n obj \<Rightarrow> 'n obj" where
  \<comment> \<open>\<open>obj[key] = v\<close>: overwrite in place, or add as the newest property\<close>
  "set_prop k v [] = [(k, v)]"
| "set_prop k v (p # ps) = (if fst p = k then (k, v) # ps else p # set_prop k v ps)"

definition digit_char :: "nat \<Rightarrow> char" where
  "digit_char d = ''0123456789'' ! d"

fun dec_nat :: "nat \<Rightarrow> string" where
  "dec_nat n = (if n < 10 then [digit_char n] else dec_nat (n div 10) @ [digit_char (n mod 10)])"

declare dec_nat.simps [simp del]

text \<open>
  The pairs \<open>(key, v[key])\<close> that \<open>for (let key in v)\<close> visits: the properties of an object
  or function, the indices of a string, and nothing for any other primitive
  (\<open>for ... in\<close> over \<open>null\<close> or \<open>undefined\<close> runs zero times).
\<close>

fun for_in_entries :: "'n heap \<Rightarrow> 'n jsval \<Rightarrow> 'n obj" where
  "for_in_entries h (VObj r) = h r"
| "for_in_entries h (VFunction r) = h r"
| "for_in_entries h (VStr s) = map (\<lambda>i. (dec_nat i, VStr [s ! i])) [0..<length s]"
| "for_in_entries h _ = []"

section \<open>The argument scan of \<open>Hab.exec\<close>\<close>

text \<open>The local variables of \<open>exec\<close>, and the store holding the caller's objects.\<close>

record 'n locals =
  command :: "'n jsval"
  commandArgs :: "'n jsval list"
  commandEnv :: "'n obj"
  execOptions :: "'n obj"
  heap :: "'n heap"

definition init_locals :: "'n number_ops \<Rightarrow> 'n heap \<Rightarrow> 'n locals" where
  "init_locals N h =
     \<lparr> command = VUndefined,
       commandArgs = [],
       commandEnv = [],
       execOptions = [(''maxBuffer'', VNum (num_of_nat N (1024 * 1024)))],
       heap = h \<rparr>"

text \<open>
  A directive whose value is copied into \<open>execOptions\<close> under \<open>name\<close> and whose key is then
  deleted from the caller's object: \<open>$nullOnError\<close>, \<open>$spawn\<close>, \<open>$shell\<close>, \<open>$preserveEnv\<close>.
\<close>

definition extract_option :: "string \<Rightarrow> string \<Rightarrow> ref \<Rightarrow> 'n locals \<Rightarrow> 'n locals" where
  "extract_option key name r st =
     (if has_prop key (heap st r)
      then st\<lparr> execOptions := set_prop name (get_prop key (heap st r)) (execOptions st),
               heap := (heap st)(r := delete_prop key (heap st r)) \<rparr>
      else st)"

definition copy_entries :: "'n obj \<Rightarrow> 'n obj \<Rightarrow> 'n obj" where
  \<comment> \<open>\<open>for (let key in src) dst[key] = src[key]\<close>\<close>
  "copy_entries src dst = fold (\<lambda>kv acc. set_prop (fst kv) (snd kv) acc) src dst"

definition extract_env :: "ref \<Rightarrow> 'n locals \<Rightarrow> 'n locals" where
  "extract_env r st =
     (if has_prop ''$env'' (heap st r)
      then st\<lparr> commandEnv :=
                 copy_entries (for_in_entries (heap st) (get_prop ''$env'' (heap st r)))
                   (commandEnv st),
               heap := (heap st)(r := delete_prop ''$env'' (heap st r)) \<rparr>
      else st)"

definition extract_options :: "ref \<Rightarrow> 'n locals \<Rightarrow> 'n locals" where
  \<comment> \<open>the source has no \<open>delete arg.$options\<close>\<close>
  "extract_options r st =
     (if has_prop ''$options'' (heap st r)
      then st\<lparr> execOptions :=
                 copy_entries (for_in_entries (heap st) (get_prop ''$options'' (heap st r)))
                   (execOptions st) \<rparr>
      else st)"

definition extract_passthrough :: "'n number_ops \<Rightarrow> ref \<Rightarrow> 'n locals \<Rightarrow> 'n locals" where
  "extract_passthrough N r st =
     (if has_prop ''$passthrough'' (heap st r)
      then
        (let b = ToBoolean N (get_prop ''$passthrough'' (heap st r));
             opts = set_prop ''passthrough'' (VBool b) (execOptions st);
             opts' = (if b then set_prop ''spawn'' (VBool True) opts else opts)
         in st\<lparr> execOptions := opts',
                 heap := (heap st)(r := delete_prop ''$passthrough'' (heap st r)) \<rparr>)
      else st)"

definition extract_wait :: "'n number_ops \<Rightarrow> ref \<Rightarrow> 'n locals \<Rightarrow> 'n locals" where
  "extract_wait N r st =
     (if has_prop ''$wait'' (heap st r)
      then st\<lparr> execOptions :=
                 set_prop ''wait'' (VBool (ToBoolean N (get_prop ''$wait'' (heap st r))))
                   (execOptions st),
               heap := (heap st)(r := delete_prop ''$wait'' (heap st r)) \<rparr>
      else st)"

text \<open>The arguments one remaining property contributes (lines 188 to 204).\<close>

definition flag_args :: "string \<times> 'n jsval \<Rightarrow> 'n jsval list" where
  "flag_args kv =
     (let key = fst kv; value = snd kv in
      if length key = 1 then
        (if value = VBool True then [VStr (''-'' @ key)]
         else if value \<noteq> VBool False then [VStr (''-'' @ key), value]
         else [])
      else
        (if value = VBool True then [VStr (''--'' @ key)]
         else if value \<noteq> VBool False then [VStr (''--'' @ key), value]
         else []))"

definition push_flags :: "ref \<Rightarrow> 'n locals \<Rightarrow> 'n locals" where
  "push_flags r st = st\<lparr> commandArgs := commandArgs st @ concat (map flag_args (heap st r)) \<rparr>"

text \<open>The \<open>case 'object'\<close> branch, in the order of the source.\<close>

definition scan_object :: "'n number_ops \<Rightarrow> ref \<Rightarrow> 'n locals \<Rightarrow> 'n locals" where
  "scan_object N r st =
     push_flags r
       (extract_wait N r
         (extract_passthrough N r
           (extract_options r
             (extract_option ''$preserveEnv'' ''preserveEnv'' r
               (extract_env r
                 (extract_option ''$shell'' ''shell'' r
                   (extract_option ''$spawn'' ''spawn'' r
                     (extract_option ''$nullOnError'' ''nullOnError'' r st))))))))"

datatype exec_error =
    UnhandledExecArgument  \<comment> \<open>\<open>throw 'unhandled exec argument'\<close>\<close>
  | TypeError              \<comment> \<open>raised by the language itself\<close>

text \<open>
  One pass of the \<open>switch (typeof arg)\<close>, one equation for each kind of value: a string
  (\<open>case 'string'\<close>, falling through to the \<open>push\<close> when a command is set), a number, an
  object, and the kinds that reach \<open>default\<close>. \<open>null\<close> has type \<open>object\<close>, where
  \<open>'$nullOnError' in null\<close> raises a \<open>TypeError\<close>; the loop condition keeps it from
  getting there.
\<close>

fun scan_arg :: "'n number_ops \<Rightarrow> 'n locals \<Rightarrow> 'n jsval \<Rightarrow> exec_error + 'n locals" where
  "scan_arg N st (VStr s) =
     (if \<not> ToBoolean N (command st) then Inr (st\<lparr> command := VStr s \<rparr>)
      else Inr (st\<lparr> commandArgs := commandArgs st @ [VStr s] \<rparr>))"
| "scan_arg N st (VNum n) = Inr (st\<lparr> commandArgs := commandArgs st @ [VStr (num_toString N n)] \<rparr>)"
| "scan_arg N st (VObj r) = Inr (scan_object N r st)"
| "scan_arg N st VNull = Inl TypeError"
| "scan_arg N st VUndefined = Inl UnhandledExecArgument"
| "scan_arg N st (VBool b) = Inl UnhandledExecArgument"
| "scan_arg N st (VFunction r) = Inl UnhandledExecArgument"
| "scan_arg N st (VSymbol k) = Inl UnhandledExecArgument"
| "scan_arg N st (VBigInt i) = Inl UnhandledExecArgument"

text \<open>
  \<open>while (arg = args.shift()) { ... }\<close>: \<open>shift\<close> on the empty array gives \<open>undefined\<close>,
  and the loop also ends at the first falsy element. When a pass raises, the scan ends
  with the error; what the passes before it did to the caller's objects stays done, so the
  error is paired with the state reached.
\<close>

fun scan_args ::
  "'n number_ops \<Rightarrow> 'n locals \<Rightarrow> 'n jsval list \<Rightarrow> (exec_error \<times> 'n locals) + 'n locals" where
  "scan_args N st [] = Inr st"
| "scan_args N st (arg # args) =
     (if \<not> ToBoolean N arg then Inr st
      else (case scan_arg N st arg of
              Inl e \<Rightarrow> Inl (e, st)
            | Inr st' \<Rightarrow> scan_args N st' args))"


subsection \<open>After the scan\<close>

datatype strategy = Direct | Shell | Spawn

text \<open>
  What \<open>exec\<close> hands to \<open>child_process\<close>: the argument vector (\<open>commandArgs\<close> after the
  \<open>unshift\<close>), the options, and the environment. The assignment
  \<open>execOptions.env = commandEnv\<close> replaces any \<open>env\<close> option: \<open>inv_options\<close> is
  \<open>execOptions\<close> without \<open>env\<close>, and \<open>inv_env\<close> is \<open>commandEnv\<close>; \<open>inv_inherit_env\<close> says
  whether the prototype of \<open>commandEnv\<close> was set to \<open>process.env\<close>. \<open>inv_heap\<close> is the store
  as the scan left it. When the scan raises, \<open>exec\<close> launches nothing; the error comes with
  the store as it was then.
\<close>

record 'n invocation =
  inv_strategy :: strategy
  inv_argv :: "'n jsval list"
  inv_options :: "'n obj"
  inv_env :: "'n obj"
  inv_inherit_env :: bool
  inv_heap :: "'n heap"

definition select_strategy :: "'n number_ops \<Rightarrow> 'n obj \<Rightarrow> strategy" where
  "select_strategy N opts =
     (if ToBoolean N (get_prop ''spawn'' opts) then Spawn
      else if ToBoolean N (get_prop ''shell'' opts) then Shell
      else Direct)"

definition final_argv :: "'n number_ops \<Rightarrow> 'n locals \<Rightarrow> 'n jsval list" where
  \<comment> \<open>\<open>if (command) commandArgs.unshift(command)\<close>\<close>
  "final_argv N st =
     (if ToBoolean N (command st) then command st # commandArgs st else commandArgs st)"

definition exec_prepare ::
  "'n number_ops \<Rightarrow> 'n heap \<Rightarrow> 'n jsval list \<Rightarrow> (exec_error \<times> 'n heap) + 'n invocation" where
  "exec_prepare N h args =
     (case scan_args N (init_locals N h) args of
        Inl (e, st) \<Rightarrow> Inl (e, heap st)
      | Inr st \<Rightarrow>
          Inr \<lparr> inv_strategy = select_strategy N (execOptions st),
                inv_argv = final_argv N st,
                inv_options = delete_prop ''env'' (execOptions st),
                inv_env = commandEnv st,
                inv_inherit_env = (get_prop ''preserveEnv'' (execOptions st) \<noteq> VBool False),
                inv_heap = heap st \<rparr>)"

definition argv_of :: "(exec_error \<times> 'n heap) + 'n invocation \<Rightarrow> 'n jsval list option" where
  "argv_of res = (case res of Inl e \<Rightarrow> None | Inr p \<Rightarrow> Some (inv_argv p))"

definition strategy_of :: "(exec_error \<times> 'n heap) + 'n invocation \<Rightarrow> strategy option" where
  "strategy_of res = (case res of Inl e \<Rightarrow> None | Inr p \<Rightarrow> Some (inv_strategy p))"

definition options_of :: "(exec_error \<times> 'n heap) + 'n invocation \<Rightarrow> 'n obj option" where
  "options_of res = (case res of Inl e \<Rightarrow> None | Inr p \<Rightarrow> Some (inv_options p))"

definition heap_after :: "(exec_error \<times> 'n heap) + 'n invocation \<Rightarrow> 'n heap" where
  \<comment> \<open>the caller's objects once the scan has ended, normally or by raising\<close>
  "heap_after res = (case res of Inl (e, h) \<Rightarrow> h | Inr p \<Rightarrow> inv_heap p)"

definition error_of :: "(exec_error \<times> 'n heap) + 'n invocation \<Rightarrow> exec_error option" where
  "error_of res = (case res of Inl (e, h) \<Rightarrow> Some e | Inr p \<Rightarrow> None)"


subsection \<open>The argument vector and the store, as the specification describes them\<close>

text \<open>
  The seven directive keys that the scan deletes from an option map. \<open>$options\<close> is read
  but has no \<open>delete\<close> in the source.
\<close>

definition deleted_directives :: "string list" where
  "deleted_directives =
     [''$nullOnError'', ''$spawn'', ''$shell'', ''$env'', ''$preserveEnv'', ''$passthrough'',
      ''$wait'']"

definition strip_directives :: "'n obj \<Rightarrow> 'n obj" where
  "strip_directives ob = filter (\<lambda>kv. fst kv \<notin> set deleted_directives) ob"

text \<open>
  The flag rule in the words of the specification: one dash for a key of length 1, two
  otherwise; \<open>true\<close> gives the flag alone, \<open>false\<close> nothing, any other value the flag and
  then the value.
\<close>

definition flag_name :: "string \<Rightarrow> string" where
  "flag_name key = (if length key = 1 then ''-'' else ''--'') @ key"

definition flag_spec :: "string \<times> 'n jsval \<Rightarrow> 'n jsval list" where
  "flag_spec kv =
     (if snd kv = VBool True then [VStr (flag_name (fst kv))]
      else if snd kv = VBool False then []
      else [VStr (flag_name (fst kv)), snd kv])"

text \<open>
  The argument vector in the words of the specification: the first string is the
  subcommand and comes first; every other string or number contributes its string form and
  every option map its flags, in the order of the call.
\<close>

fun arg_tokens :: "'n number_ops \<Rightarrow> 'n heap \<Rightarrow> 'n jsval \<Rightarrow> 'n jsval list" where
  "arg_tokens N h (VStr s) = [VStr s]"
| "arg_tokens N h (VNum n) = [VStr (num_toString N n)]"
| "arg_tokens N h (VObj r) = concat (map flag_spec (strip_directives (h r)))"
| "arg_tokens N h _ = []"

definition is_string :: "'n jsval \<Rightarrow> bool" where
  "is_string a = (typeof a = TString)"

definition marshalled_argv :: "'n number_ops \<Rightarrow> 'n heap \<Rightarrow> 'n jsval list \<Rightarrow> 'n jsval list" where
  "marshalled_argv N h args =
     (case find is_string args of
        None \<Rightarrow> concat (map (arg_tokens N h) args)
      | Some c \<Rightarrow> c # concat (map (arg_tokens N h) (remove1 c args)))"

text \<open>An argument the scan passes over without stopping and without raising.\<close>

definition supported :: "'n number_ops \<Rightarrow> 'n jsval \<Rightarrow> bool" where
  "supported N a = (ToBoolean N a \<and> typeof a \<in> {TString, TNumber, TObject})"




section \<open>Text: \<open>trim\<close>, \<open>split\<close> and the version pattern\<close>

text \<open>
  The characters that \<open>String.prototype.trim\<close> removes and that \<open>\s\<close> matches, among the
  first 256 code units: tab, line feed, vertical tab, form feed, carriage return, space and
  no-break space.
\<close>

definition js_space :: "char \<Rightarrow> bool" where
  "js_space c = (c \<in> set [CHR 0x09, CHR 0x0A, CHR 0x0B, CHR 0x0C, CHR 0x0D, CHR 0x20, CHR 0xA0])"

definition trim :: "string \<Rightarrow> string" where
  "trim s = rev (dropWhile js_space (rev (dropWhile js_space s)))"

text \<open>\<open>s.split(/\n/)\<close>: the pieces between line feeds; never the empty list.\<close>

fun split_lines :: "string \<Rightarrow> string list" where
  "split_lines [] = [[]]"
| "split_lines (c # cs) =
     (if c = CHR 0x0A then [] # split_lines cs
      else (case split_lines cs of
              [] \<Rightarrow> [[c]]
            | w # ws \<Rightarrow> (c # w) # ws))"

text \<open>
  \<open>s.split(/\s{2,}/)\<close>: the pattern matches at a position where two whitespace characters
  follow, and being greedy takes the whole run; a single whitespace character stays in its
  field.
\<close>

function split_columns :: "string \<Rightarrow> string list" where
  "split_columns [] = [[]]"
| "split_columns (c # cs) =
     (if js_space c \<and> cs \<noteq> [] \<and> js_space (hd cs) then [] # split_columns (dropWhile js_space cs)
      else (case split_columns cs of
              [] \<Rightarrow> [[c]]
            | w # ws \<Rightarrow> (c # w) # ws))"
  by pat_completeness auto
termination
  by (relation "measure length") (auto intro: le_imp_less_Suc length_dropWhile_le)

definition is_digit :: "char \<Rightarrow> bool" where
  "is_digit c = (c \<in> set ''0123456789'')"

text \<open>
  \<open>/^hab ([^\/]+)\/(\d+)$/.exec(output)\<close>, giving the two groups. The first group cannot
  contain a slash, so it ends at the first slash after \<open>hab \<close>; the rest must be digits up
  to the end of the input.
\<close>

definition match_version :: "string \<Rightarrow> (string \<times> string) option" where
  "match_version s =
     (if take 4 s = ''hab '' then
        (let rest = drop 4 s;
             v = takeWhile (\<lambda>c. c \<noteq> CHR ''/'') rest;
             t = dropWhile (\<lambda>c. c \<noteq> CHR ''/'') rest
         in if v \<noteq> [] \<and> t \<noteq> [] \<and> tl t \<noteq> [] \<and> list_all is_digit (tl t)
            then Some (v, tl t) else None)
      else None)"

section \<open>Running the binary\<close>

text \<open>
  The child process is outside the program. For the two capturing strategies its whole
  effect is the triple \<open>(error, stdout, stderr)\<close> that \<open>child_process.execFile\<close> or
  \<open>child_process.exec\<close> passes to the callback; \<open>error\<close> is \<open>null\<close> on success and an
  \<open>Error\<close> on a non-zero exit or a failed launch. The environment is a function from the
  binary and the invocation to that triple.
\<close>

datatype child_error = ChildError string

record callback_args =
  cb_error :: "child_error option"
  cb_stdout :: string
  cb_stderr :: string

type_synonym 'n child_process = "string \<Rightarrow> 'n invocation \<Rightarrow> callback_args"

subsection \<open>The handle of a spawned process\<close>

datatype promise_state =
    Pending
  | Fulfilled string                \<comment> \<open>\<open>resolve(output)\<close>\<close>
  | RejectedWith string "int option"  \<comment> \<open>\<open>reject({ output, code })\<close>\<close>

text \<open>
  Each promise that \<open>captureOutput\<close> creates has its own \<open>output\<close> variable and its own
  \<open>data\<close> and \<open>exit\<close> listeners. \<open>captures\<close> lists them in creation order, so a position in
  the list is the identity of a promise; \<open>capturePromise\<close> is the variable of that name,
  \<open>None\<close> while it is \<open>undefined\<close>.
\<close>

record capture =
  cap_output :: string
  cap_state :: promise_state

datatype 'n stdin_op = StdinWrite "'n jsval" | StdinEnd

record 'n process =
  passthrough :: bool
  capturePromise :: "nat option"
  captures :: "capture list"
  stdin_ops :: "'n stdin_op list"

definition spawned :: "bool \<Rightarrow> 'n process" where
  "spawned pt = \<lparr> passthrough = pt, capturePromise = None, captures = [], stdin_ops = [] \<rparr>"

definition write_input :: "'n number_ops \<Rightarrow> 'n jsval \<Rightarrow> 'n process \<Rightarrow> 'n process" where
  \<comment> \<open>\<open>if (input) { process.stdin.write(input); process.stdin.end(); }\<close>\<close>
  "write_input N input p =
     (if ToBoolean N input then p\<lparr> stdin_ops := stdin_ops p @ [StdinWrite input, StdinEnd] \<rparr>
      else p)"

definition captureOutput :: "'n number_ops \<Rightarrow> 'n jsval \<Rightarrow> 'n process \<Rightarrow> nat \<times> 'n process" where
  "captureOutput N input p =
     (case capturePromise p of
        None \<Rightarrow>
          (let k = length (captures p);
               p' = p\<lparr> capturePromise := Some k,
                       captures := captures p @ [\<lparr> cap_output = [], cap_state = Pending \<rparr>] \<rparr>
           in (k, write_input N input p'))
      | Some k \<Rightarrow> (k, write_input N input p))"

text \<open>The events of the child: a chunk on standard output, and the exit with its code
  (\<open>null\<close>, here \<open>None\<close>, when a signal ended it).\<close>

definition on_data :: "string \<Rightarrow> 'n process \<Rightarrow> 'n process" where
  \<comment> \<open>\<open>output += data\<close> in every capture\<close>
  "on_data d p = p\<lparr> captures := map (\<lambda>c. c\<lparr> cap_output := cap_output c @ d \<rparr>) (captures p) \<rparr>"

definition settle :: "int option \<Rightarrow> capture \<Rightarrow> capture" where
  \<comment> \<open>\<open>if (code == 0) resolve(output) else reject({ output, code })\<close>; a settled promise stays\<close>
  "settle code c =
     (if cap_state c = Pending
      then c\<lparr> cap_state := (if code = Some 0 then Fulfilled (cap_output c)
                             else RejectedWith (cap_output c) code) \<rparr>
      else c)"

definition on_exit :: "int option \<Rightarrow> 'n process \<Rightarrow> 'n process" where
  "on_exit code p = p\<lparr> captures := map (settle code) (captures p) \<rparr>"

datatype 'n process_event =
    Data string
  | Exit "int option"
  | CaptureCall "'n jsval"   \<comment> \<open>some caller invokes \<open>captureOutput(input)\<close>\<close>

fun process_step :: "'n number_ops \<Rightarrow> 'n process_event \<Rightarrow> 'n process \<Rightarrow> 'n process" where
  "process_step N (Data d) p = on_data d p"
| "process_step N (Exit code) p = on_exit code p"
| "process_step N (CaptureCall input) p = snd (captureOutput N input p)"

subsection \<open>\<open>exec\<close>\<close>

datatype 'n exec_result =
    Resolved "'n jsval"           \<comment> \<open>the promise resolves with this value\<close>
  | Rejected child_error string   \<comment> \<open>it rejects with the error, \<open>error.stderr\<close> set\<close>
  | Threw exec_error              \<comment> \<open>the scan raised\<close>
  | Handle "'n process"           \<comment> \<open>the spawned process, with \<open>captureOutput\<close>\<close>
  | ExitPromise                   \<comment> \<open>\<open>$wait\<close>: a promise settled by the exit code\<close>

definition capture_callback :: "'n number_ops \<Rightarrow> 'n obj \<Rightarrow> callback_args \<Rightarrow> 'n exec_result" where
  "capture_callback N opts cb =
     (case cb_error cb of
        Some error \<Rightarrow>
          (if ToBoolean N (get_prop ''nullOnError'' opts) then Resolved VNull
           else Rejected error (cb_stderr cb))
      | None \<Rightarrow> Resolved (VStr (trim (cb_stdout cb))))"

text \<open>
  \<open>exec\<close> gives its result and the launches it made of the binary. The shell command line
  \<open>`${this.command} ${commandArgs.join(' ')}`\<close> is kept as its parts.
\<close>

definition exec ::
  "'n number_ops \<Rightarrow> 'n child_process \<Rightarrow> string \<Rightarrow> 'n heap \<Rightarrow> 'n jsval list \<Rightarrow>
     'n exec_result \<times> (string \<times> 'n invocation) list" where
  "exec N cp this_command h args =
     (case exec_prepare N h args of
        Inl (e, h') \<Rightarrow> (Threw e, [])
      | Inr i \<Rightarrow>
          (case inv_strategy i of
             Spawn \<Rightarrow>
               (if ToBoolean N (get_prop ''wait'' (inv_options i)) then ExitPromise
                else Handle (spawned (ToBoolean N (get_prop ''passthrough'' (inv_options i)))),
                [(this_command, i)])
           | Shell \<Rightarrow>
               (capture_callback N (inv_options i) (cp this_command i), [(this_command, i)])
           | Direct \<Rightarrow>
               (capture_callback N (inv_options i) (cp this_command i), [(this_command, i)])))"

text \<open>
  What \<open>exec\<close> hands over when the call has no directive: the direct strategy, the
  default options and an empty overlay on the inherited environment.
\<close>

definition plain_invocation :: "'n number_ops \<Rightarrow> 'n jsval list \<Rightarrow> 'n heap \<Rightarrow> 'n invocation" where
  "plain_invocation N argv h =
     \<lparr> inv_strategy = Direct,
       inv_argv = argv,
       inv_options = [(''maxBuffer'', VNum (num_of_nat N (1024 * 1024)))],
       inv_env = [],
       inv_inherit_env = True,
       inv_heap = h \<rparr>"

section \<open>The \<open>Hab\<close> instance\<close>

record 'n hab =
  this_command :: string
  version :: "'n jsval"
  build :: "'n jsval"

definition new_hab :: "string \<Rightarrow> 'n hab" where
  \<comment> \<open>the constructor: \<open>this.version = null; this.build = null\<close>\<close>
  "new_hab cmd = \<lparr> this_command = cmd, version = VNull, build = VNull \<rparr>"

definition version_query_heap :: "'n heap" where
  \<comment> \<open>the object literal \<open>{ version: true }\<close>, at address 0\<close>
  "version_query_heap = (\<lambda>r. [])(0 := [(''version'', VBool True)])"

text \<open>
  \<open>getVersion\<close> gives the returned value, the instance afterwards and the launches made.
  A result of \<open>exec\<close> that is not a matching string ends in the \<open>catch\<close>: \<open>await\<close> raises on
  a rejection, and destructuring the \<open>null\<close> of a failed match raises a \<open>TypeError\<close>.
\<close>

definition getVersion ::
  "'n number_ops \<Rightarrow> 'n child_process \<Rightarrow> 'n hab \<Rightarrow>
     'n jsval \<times> 'n hab \<times> (string \<times> 'n invocation) list" where
  "getVersion N cp this =
     (let (this', launches) =
        (if version this = VNull then
           (let (res, launches) = exec N cp (this_command this) version_query_heap [VObj 0] in
            (case res of
               Resolved (VStr output) \<Rightarrow>
                 (case match_version output of
                    Some (v, b) \<Rightarrow> this\<lparr> version := VStr v, build := VStr b \<rparr>
                  | None \<Rightarrow> this\<lparr> version := VBool False \<rparr>)
             | _ \<Rightarrow> this\<lparr> version := VBool False \<rparr>,
             launches))
         else (this, []))
      in (if ToBoolean N (version this') then version this' else VNull, this', launches))"

text \<open>
  \<open>_.object(list, values)\<close> of underscore: \<open>result[list[i]] = values[i]\<close> for every index of
  \<open>list\<close>; an index past the end of \<open>values\<close> reads \<open>undefined\<close>.
\<close>

definition underscore_object :: "string list \<Rightarrow> string list \<Rightarrow> 'n obj" where
  "underscore_object list values =
     fold (\<lambda>i result.
             set_prop (list ! i) (if i < length values then VStr (values ! i) else VUndefined) result)
       [0..<length list] []"

datatype 'n status = StatusFalse | Services "'n obj list"

fun status_rows :: "string list option \<Rightarrow> 'n obj list \<Rightarrow> string list \<Rightarrow> 'n obj list" where
  \<comment> \<open>the \<open>for (let line of output)\<close> loop with its variables \<open>columns\<close> and \<open>services\<close>\<close>
  "status_rows columns services [] = services"
| "status_rows columns services (line # rest) =
     (let line' = split_columns line in
      case columns of
        None \<Rightarrow> status_rows (Some line') services rest
      | Some cols \<Rightarrow> status_rows columns (services @ [underscore_object cols line']) rest)"

definition getSupervisorStatus :: "'n number_ops \<Rightarrow> 'n child_process \<Rightarrow> 'n hab \<Rightarrow> 'n status" where
  "getSupervisorStatus N cp this =
     (case fst (exec N cp (this_command this) (\<lambda>r. []) [VStr ''svc'', VStr ''status'']) of
        Resolved (VStr out) \<Rightarrow>
          (let output = split_lines out in
           if length output = 1 then Services []
           else Services (status_rows None [] output))
      | _ \<Rightarrow> StatusFalse)"

section \<open>Concrete numbers, stores and binaries for examples\<close>

text \<open>
  Integer-valued numbers of magnitude below \<open>10^21\<close>, where \<open>Number.prototype.toString\<close>
  gives the decimal digits.
\<close>

definition int_ops :: "int number_ops" where
  "int_ops =
     \<lparr> num_truthy = (\<lambda>i. i \<noteq> 0),
       num_toString = (\<lambda>i. if i < 0 then ''-'' @ dec_nat (nat (- i)) else dec_nat (nat i)),
       num_of_nat = int \<rparr>"

definition empty_heap :: "'n heap" where
  "empty_heap = (\<lambda>r. [])"

definition flags_heap :: "int heap" where
  \<comment> \<open>\<open>{ verbose: true, q: false, n: 3, $spawn: true }\<close>\<close>
  "flags_heap =
     empty_heap(0 := [(''verbose'', VBool True), (''q'', VBool False), (''n'', VNum 3),
                      (''$spawn'', VBool True)])"

definition options_heap :: "int heap" where
  \<comment> \<open>\<open>{ $options: { cwd: '/tmp' } }\<close>\<close>
  "options_heap = empty_heap(0 := [(''$options'', VObj 1)], 1 := [(''cwd'', VStr ''/tmp'')])"




definition child_prints :: "string \<Rightarrow> 'n child_process" where
  \<comment> \<open>a binary that writes \<open>out\<close> and exits with code 0\<close>
  "child_prints out = (\<lambda>file i. \<lparr> cb_error = None, cb_stdout = out, cb_stderr = [] \<rparr>)"

definition child_fails :: "string \<Rightarrow> 'n child_process" where
  \<comment> \<open>a binary that writes \<open>err\<close> to standard error and exits with code 1\<close>
  "child_fails err =
     (\<lambda>file i. \<lparr> cb_error = Some (ChildError ''Command failed''), cb_stdout = [],
                 cb_stderr = err \<rparr>)"

section \<open>Facts about the scan\<close>

lemma delete_prop_absent: "\<not> has_prop k ob \<Longrightarrow> delete_prop k ob = ob"
  by (induction ob) (auto simp: has_prop_def delete_prop_def split: if_splits)

lemma heap_extract_option [simp]:
  "heap (extract_option key name r st) = (heap st)(r := delete_prop key (heap st r))"
  by (simp add: extract_option_def delete_prop_absent)

lemma heap_extract_env [simp]:
  "heap (extract_env r st) = (heap st)(r := delete_prop ''$env'' (heap st r))"
  by (simp add: extract_env_def delete_prop_absent)

lemma heap_extract_options [simp]: "heap (extract_options r st) = heap st"
  by (simp add: extract_options_def)

lemma heap_extract_passthrough [simp]:
  "heap (extract_passthrough N r st) = (heap st)(r := delete_prop ''$passthrough'' (heap st r))"
  by (simp add: extract_passthrough_def Let_def delete_prop_absent)

lemma heap_extract_wait [simp]:
  "heap (extract_wait N r st) = (heap st)(r := delete_prop ''$wait'' (heap st r))"
  by (simp add: extract_wait_def delete_prop_absent)

lemma args_extract [simp]:
  "commandArgs (extract_option key name r st) = commandArgs st"
  "commandArgs (extract_env r st) = commandArgs st"
  "commandArgs (extract_options r st) = commandArgs st"
  "commandArgs (extract_passthrough N r st) = commandArgs st"
  "commandArgs (extract_wait N r st) = commandArgs st"
  by (simp_all add: extract_option_def extract_env_def extract_options_def
        extract_passthrough_def extract_wait_def Let_def)

lemma command_extract [simp]:
  "command (extract_option key name r st) = command st"
  "command (extract_env r st) = command st"
  "command (extract_options r st) = command st"
  "command (extract_passthrough N r st) = command st"
  "command (extract_wait N r st) = command st"
  by (simp_all add: extract_option_def extract_env_def extract_options_def
        extract_passthrough_def extract_wait_def Let_def)

lemma strip_as_deletes:
  "strip_directives ob =
     delete_prop ''$wait'' (delete_prop ''$passthrough'' (delete_prop ''$preserveEnv''
       (delete_prop ''$env'' (delete_prop ''$shell'' (delete_prop ''$spawn''
         (delete_prop ''$nullOnError'' ob))))))"
  unfolding strip_directives_def delete_prop_def deleted_directives_def filter_filter
  by (rule filter_cong) auto

lemma heap_scan_object: "heap (scan_object N r st) = (heap st)(r := strip_directives (heap st r))"
  by (simp add: scan_object_def push_flags_def strip_as_deletes)

lemma command_scan_object: "command (scan_object N r st) = command st"
  by (simp add: scan_object_def push_flags_def)

lemma flag_args_eq_spec: "flag_args kv = flag_spec kv"
  by (simp add: flag_args_def flag_spec_def flag_name_def Let_def)

lemma args_scan_object:
  "commandArgs (scan_object N r st) =
     commandArgs st @ concat (map flag_spec (strip_directives (heap st r)))"
proof -
  have "flag_args = (flag_spec :: string \<times> 'a jsval \<Rightarrow> 'a jsval list)"
    by (rule ext) (rule flag_args_eq_spec)
  then show ?thesis
    by (simp add: scan_object_def push_flags_def strip_as_deletes)
qed

lemma strip_idem [simp]: "strip_directives (strip_directives ob) = strip_directives ob"
  by (simp add: strip_directives_def)


lemma arg_tokens_scan_object:
  "arg_tokens N (heap (scan_object N r st)) = arg_tokens N (heap st)"
proof
  fix a
  show "arg_tokens N (heap (scan_object N r st)) a = arg_tokens N (heap st) a"
    by (cases a) (simp_all add: heap_scan_object)
qed

lemma is_string_simps [simp]:
  "is_string (VStr s)" "\<not> is_string (VNum n)" "\<not> is_string (VObj r)"
  by (simp_all add: is_string_def)

lemma find_is_string: "find is_string xs = Some c \<Longrightarrow> \<exists>s. c = VStr s"
proof (induction xs)
  case (Cons x xs)
  then show ?case by (cases x) (auto simp: is_string_def split: if_splits)
qed simp

lemma scan_args_command_set:
  assumes "\<forall>a\<in>set args. supported N a" and "ToBoolean N (command st)"
  shows "\<exists>st'. scan_args N st args = Inr st' \<and> command st' = command st \<and>
           commandArgs st' = commandArgs st @ concat (map (arg_tokens N (heap st)) args)"
  using assms
proof (induction args arbitrary: st)
  case Nil
  then show ?case by simp
next
  case (Cons a args)
  from Cons.prems have sa: "supported N a" and rest: "\<forall>a\<in>set args. supported N a" by auto
  show ?case
  proof (cases a)
    case (VStr s)
    let ?st1 = "st\<lparr> commandArgs := commandArgs st @ [VStr s] \<rparr>"
    from Cons.IH[OF rest, of ?st1] Cons.prems(2) sa VStr show ?thesis
      by (auto simp: supported_def)
  next
    case (VNum n)
    let ?st1 = "st\<lparr> commandArgs := commandArgs st @ [VStr (num_toString N n)] \<rparr>"
    from Cons.IH[OF rest, of ?st1] Cons.prems(2) sa VNum show ?thesis
      by (auto simp: supported_def)
  next
    case (VObj r)
    from Cons.IH[OF rest, of "scan_object N r st"] Cons.prems(2) sa VObj show ?thesis
      by (auto simp: supported_def command_scan_object arg_tokens_scan_object args_scan_object)
  qed (use sa in \<open>auto simp: supported_def\<close>)
qed

lemma remove1_found_string:
  "find is_string args = Some c \<Longrightarrow> \<not> is_string a \<Longrightarrow> remove1 c (a # args) = a # remove1 c args"
  by (auto dest!: find_is_string)

lemma scan_args_command_unset:
  assumes "\<forall>a\<in>set args. supported N a" and "\<not> ToBoolean N (command st)"
  shows "\<exists>st'. scan_args N st args = Inr st' \<and>
           (case find is_string args of
              None \<Rightarrow> command st' = command st \<and>
                commandArgs st' = commandArgs st @ concat (map (arg_tokens N (heap st)) args)
            | Some c \<Rightarrow> command st' = c \<and>
                commandArgs st' = commandArgs st @ concat (map (arg_tokens N (heap st)) (remove1 c args)))"
  using assms
proof (induction args arbitrary: st)
  case Nil
  then show ?case by simp
next
  case (Cons a args)
  from Cons.prems have sa: "supported N a" and rest: "\<forall>a\<in>set args. supported N a" by auto
  from sa have ta: "ToBoolean N a" by (simp add: supported_def)
  show ?case
  proof (cases a)
    case (VStr s)
    let ?st1 = "st\<lparr> command := VStr s \<rparr>"
    from ta VStr have "ToBoolean N (command ?st1)" by simp
    from scan_args_command_set[OF rest this] Cons.prems(2) ta VStr show ?thesis
      by auto
  next
    case (VNum n)
    let ?st1 = "st\<lparr> commandArgs := commandArgs st @ [VStr (num_toString N n)] \<rparr>"
    have unset: "\<not> ToBoolean N (command ?st1)" using Cons.prems(2) by simp
    have step: "scan_args N st (a # args) = scan_args N ?st1 args" using ta VNum by simp
    have nos: "\<not> is_string a" using VNum by simp
    from Cons.IH[OF rest unset] obtain st' where
      run: "scan_args N ?st1 args = Inr st'" and
      res: "(case find is_string args of
              None \<Rightarrow> command st' = command ?st1 \<and>
                commandArgs st' = commandArgs ?st1 @ concat (map (arg_tokens N (heap ?st1)) args)
            | Some c \<Rightarrow> command st' = c \<and>
                commandArgs st' = commandArgs ?st1 @ concat (map (arg_tokens N (heap ?st1)) (remove1 c args)))"
      by blast
    show ?thesis
    proof (cases "find is_string args")
      case None
      with run res step nos VNum show ?thesis by simp
    next
      case (Some c)
      with run res step nos VNum remove1_found_string[OF Some nos] show ?thesis by simp
    qed
  next
    case (VObj r)
    let ?st1 = "scan_object N r st"
    have unset: "\<not> ToBoolean N (command ?st1)" using Cons.prems(2) by (simp add: command_scan_object)
    have step: "scan_args N st (a # args) = scan_args N ?st1 args" using ta VObj by simp
    have nos: "\<not> is_string a" using VObj by simp
    from Cons.IH[OF rest unset] obtain st' where
      run: "scan_args N ?st1 args = Inr st'" and
      res: "(case find is_string args of
              None \<Rightarrow> command st' = command ?st1 \<and>
                commandArgs st' = commandArgs ?st1 @ concat (map (arg_tokens N (heap ?st1)) args)
            | Some c \<Rightarrow> command st' = c \<and>
                commandArgs st' = commandArgs ?st1 @ concat (map (arg_tokens N (heap ?st1)) (remove1 c args)))"
      by blast
    show ?thesis
    proof (cases "find is_string args")
      case None
      with run res step nos VObj show ?thesis
        by (simp add: command_scan_object arg_tokens_scan_object args_scan_object)
    next
      case (Some c)
      with run res step nos VObj remove1_found_string[OF Some nos] show ?thesis
        by (simp add: command_scan_object arg_tokens_scan_object args_scan_object)
    qed
  qed (use sa in \<open>auto simp: supported_def\<close>)
qed

lemma find_is_string_truthy:
  "find is_string xs = Some c \<Longrightarrow> \<forall>a\<in>set xs. supported N a \<Longrightarrow> ToBoolean N c"
  by (induction xs) (auto split: if_splits simp: supported_def)

lemma init_locals_sel [simp]:
  "command (init_locals N h) = VUndefined"
  "commandArgs (init_locals N h) = []"
  "commandEnv (init_locals N h) = []"
  "heap (init_locals N h) = h"
  by (simp_all add: init_locals_def)

lemma heap_scan_arg:
  "scan_arg N st a = Inr st1 \<Longrightarrow>
   heap st1 r = (if a = VObj r then strip_directives (heap st r) else heap st r)"
  by (cases a) (auto simp: heap_scan_object split: if_splits)


lemma has_prop_iff: "has_prop k ob \<longleftrightarrow> k \<in> fst ` set ob"
  by (simp add: has_prop_def map_of_eq_None_iff)

lemma has_prop_strip:
  "has_prop k (strip_directives ob) \<longleftrightarrow> k \<notin> set deleted_directives \<and> has_prop k ob"
  by (auto simp: has_prop_iff strip_directives_def)



lemma scan_arg_supported:
  assumes "ToBoolean N a"
  shows "(\<exists>st1. scan_arg N st a = Inr st1) \<longleftrightarrow> supported N a"
  using assms by (cases a) (auto simp: supported_def)

lemma heap_scan_ended:
  "(case scan_args N st args of Inl (e, st') \<Rightarrow> heap st' r | Inr st' \<Rightarrow> heap st' r) =
     (if VObj r \<in> set (takeWhile (supported N) args) then strip_directives (heap st r)
      else heap st r)"
proof (induction args arbitrary: st)
  case Nil
  then show ?case by simp
next
  case (Cons a args)
  show ?case
  proof (cases "supported N a")
    case False
    show ?thesis
    proof (cases "ToBoolean N a")
      case True
      with False scan_arg_supported[of N a st] obtain e where "scan_arg N st a = Inl e"
        by (cases "scan_arg N st a") auto
      with True False show ?thesis by simp
    next
      case nt: False
      with False show ?thesis by simp
    qed
  next
    case True
    then have t: "ToBoolean N a" by (simp add: supported_def)
    with True scan_arg_supported[of N a st] obtain st1 where one: "scan_arg N st a = Inr st1"
      by blast
    from Cons.IH[where st = st1] heap_scan_arg[OF one, of r] True t one show ?thesis
      by auto
  qed
qed

lemma heap_after_exec_prepare:
  "heap_after (exec_prepare N h args) r =
     (if VObj r \<in> set (takeWhile (supported N) args) then strip_directives (h r) else h r)"
proof -
  have "heap_after (exec_prepare N h args) r =
          (case scan_args N (init_locals N h) args of
             Inl (e, st') \<Rightarrow> heap st' r | Inr st' \<Rightarrow> heap st' r)"
    by (simp add: heap_after_def exec_prepare_def split: sum.splits prod.splits)
  then show ?thesis using heap_scan_ended[where N = N and st = "init_locals N h" and args = args and r = r]
    by simp
qed

section \<open>Facts about \<open>execOptions\<close>\<close>






lemma map_of_set_prop: "map_of (set_prop k' v ob) k = (if k = k' then Some v else map_of ob k)"
  by (induction ob) auto

lemma get_prop_set_prop: "get_prop k (set_prop k' v ob) = (if k = k' then v else get_prop k ob)"
  by (simp add: get_prop_def map_of_set_prop)


lemma execOptions_extract_option:
  "execOptions (extract_option key name r st) =
     (if has_prop key (heap st r) then set_prop name (get_prop key (heap st r)) (execOptions st)
      else execOptions st)"
  by (simp add: extract_option_def)

lemma execOptions_extract_env [simp]: "execOptions (extract_env r st) = execOptions st"
  by (simp add: extract_env_def)


lemma execOptions_push_flags [simp]: "execOptions (push_flags r st) = execOptions st"
  by (simp add: push_flags_def)

lemma spawn_extract_option:
  "name \<noteq> ''spawn'' \<Longrightarrow>
   get_prop ''spawn'' (execOptions (extract_option key name r st)) = get_prop ''spawn'' (execOptions st)"
  by (simp add: execOptions_extract_option get_prop_set_prop)

lemma spawn_extract_wait [simp]:
  "get_prop ''spawn'' (execOptions (extract_wait N r st)) = get_prop ''spawn'' (execOptions st)"
  by (simp add: extract_wait_def get_prop_set_prop)



lemma keys_delete_prop: "fst ` set (delete_prop k ob) \<subseteq> fst ` set ob"
  by (auto simp: delete_prop_def)













lemma nullOnError_extract_passthrough [simp]:
  "get_prop ''nullOnError'' (execOptions (extract_passthrough N r st))
     = get_prop ''nullOnError'' (execOptions st)"
  by (simp add: extract_passthrough_def Let_def get_prop_set_prop)

lemma nullOnError_extract_wait [simp]:
  "get_prop ''nullOnError'' (execOptions (extract_wait N r st))
     = get_prop ''nullOnError'' (execOptions st)"
  by (simp add: extract_wait_def get_prop_set_prop)











section \<open>Facts about text\<close>






section \<open>Facts about the helper queries\<close>

lemma version_query_heap_0 [simp]: "version_query_heap 0 = [(''version'', VBool True)]"
  by (simp add: version_query_heap_def)

lemma exec_prepare_version:
  "exec_prepare N version_query_heap [VObj 0]
     = Inr (plain_invocation N [VStr ''--version''] version_query_heap)"
  by (simp add: exec_prepare_def init_locals_def final_argv_def select_strategy_def
        scan_object_def extract_option_def extract_env_def extract_options_def
        extract_passthrough_def extract_wait_def push_flags_def flag_args_def
        has_prop_def get_prop_def delete_prop_def plain_invocation_def)

lemma exec_prepare_status:
  "exec_prepare N (\<lambda>r. []) [VStr ''svc'', VStr ''status'']
     = Inr (plain_invocation N [VStr ''svc'', VStr ''status''] (\<lambda>r. []))"
  by (simp add: exec_prepare_def init_locals_def final_argv_def select_strategy_def
        get_prop_def delete_prop_def plain_invocation_def)

lemma exec_plain:
  assumes "exec_prepare N h args = Inr (plain_invocation N argv h')"
  shows "exec N cp file h args =
           (capture_callback N (inv_options (plain_invocation N argv h'))
              (cp file (plain_invocation N argv h')),
            [(file, plain_invocation N argv h')])"
  by (simp add: exec_def assms) (simp add: plain_invocation_def)

lemma match_version_iff:
  "match_version s = Some (v, b) \<longleftrightarrow>
     s = ''hab '' @ v @ ''/'' @ b \<and> v \<noteq> [] \<and> CHR ''/'' \<notin> set v \<and> b \<noteq> [] \<and> list_all is_digit b"
proof
  assume m: "match_version s = Some (v, b)"
  let ?rest = "drop 4 s"
  let ?t = "dropWhile (\<lambda>c. c \<noteq> CHR ''/'') ?rest"
  from m have pre: "take 4 s = ''hab ''"
    and v: "v = takeWhile (\<lambda>c. c \<noteq> CHR ''/'') ?rest"
    and b: "b = tl ?t"
    and ne: "v \<noteq> []" "?t \<noteq> []" "b \<noteq> []" "list_all is_digit b"
    by (auto simp: match_version_def Let_def split: if_splits)
  from ne(2) have "\<not> (hd ?t \<noteq> CHR ''/'')" by (rule hd_dropWhile)
  with ne(2) b have t: "?t = CHR ''/'' # b" by (cases ?t) auto
  have "s = take 4 s @ ?rest" by simp
  also have "?rest = v @ ?t" unfolding v by simp
  finally have "s = ''hab '' @ v @ ''/'' @ b" using pre t by simp
  moreover have "CHR ''/'' \<notin> set v" unfolding v by (blast dest: set_takeWhileD)
  ultimately show "s = ''hab '' @ v @ ''/'' @ b \<and> v \<noteq> [] \<and> CHR ''/'' \<notin> set v \<and> b \<noteq> [] \<and>
                   list_all is_digit b"
    using ne by blast
next
  assume r: "s = ''hab '' @ v @ ''/'' @ b \<and> v \<noteq> [] \<and> CHR ''/'' \<notin> set v \<and> b \<noteq> [] \<and>
             list_all is_digit b"
  then have s: "s = ''hab '' @ v @ ''/'' @ b" and nv: "CHR ''/'' \<notin> set v" by blast+
  have tk: "takeWhile (\<lambda>c. c \<noteq> CHR ''/'') (v @ CHR ''/'' # b) = v"
    using nv by (induction v) auto
  have dr: "dropWhile (\<lambda>c. c \<noteq> CHR ''/'') (v @ CHR ''/'' # b) = CHR ''/'' # b"
    using nv by (induction v) auto
  from r show "match_version s = Some (v, b)"
    by (simp add: match_version_def s tk dr)
qed

lemma split_lines_nonempty: "split_lines s \<noteq> []"
  by (induction s) (auto split: list.splits)

lemma status_rows_known_columns:
  "status_rows (Some cols) services ls
     = services @ map (\<lambda>line. underscore_object cols (split_columns line)) ls"
  by (induction ls arbitrary: services) (simp_all add: Let_def)

lemma status_rows_header:
  "ls \<noteq> [] \<Longrightarrow>
   status_rows None [] ls
     = map (\<lambda>line. underscore_object (split_columns (hd ls)) (split_columns line)) (tl ls)"
  by (cases ls) (simp_all add: Let_def status_rows_known_columns)

lemma set_prop_fresh: "k \<notin> fst ` set ob \<Longrightarrow> set_prop k v ob = ob @ [(k, v)]"
  by (induction ob) auto

lemma underscore_object_prefix:
  assumes "distinct cols" and "n \<le> length cols"
  shows "fold (\<lambda>i result. set_prop (cols ! i) (f i) result) [0..<n] []
           = map (\<lambda>i. (cols ! i, f i)) [0..<n]"
  using assms(2)
proof (induction n)
  case 0
  then show ?case by simp
next
  case (Suc n)
  then have IH: "fold (\<lambda>i result. set_prop (cols ! i) (f i) result) [0..<n] []
                   = map (\<lambda>i. (cols ! i, f i)) [0..<n]" by simp
  have "cols ! n \<notin> fst ` set (map (\<lambda>i. (cols ! i, f i)) [0..<n])"
    using assms(1) Suc.prems by (auto simp: nth_eq_iff_index_eq)
  then show ?case by (simp add: IH set_prop_fresh)
qed

lemma underscore_object_distinct:
  "distinct cols \<Longrightarrow>
   underscore_object cols vals
     = map (\<lambda>i. (cols ! i, if i < length vals then VStr (vals ! i) else VUndefined))
         [0..<length cols]"
  unfolding underscore_object_def by (rule underscore_object_prefix) simp_all


lemma getVersion_cached:
  "version this \<noteq> VNull \<Longrightarrow>
   getVersion N cp this = (if ToBoolean N (version this) then version this else VNull, this, [])"
  by (simp add: getVersion_def)

lemma getVersion_query:
  assumes "version this = VNull"
  shows "getVersion N cp this =
     (let i = plain_invocation N [VStr ''--version''] version_query_heap;
          cb = cp (this_command this) i in
      case (if cb_error cb = None then match_version (trim (cb_stdout cb)) else None) of
        Some (v, b) \<Rightarrow>
          (VStr v, this\<lparr> version := VStr v, build := VStr b \<rparr>, [(this_command this, i)])
      | None \<Rightarrow> (VNull, this\<lparr> version := VBool False \<rparr>, [(this_command this, i)]))"
proof -
  let ?i = "plain_invocation N [VStr ''--version''] version_query_heap"
  let ?cb = "cp (this_command this) ?i"
  have ex: "exec N cp (this_command this) version_query_heap [VObj 0]
              = (capture_callback N (inv_options ?i) ?cb, [(this_command this, ?i)])"
    by (rule exec_plain[OF exec_prepare_version])
  have no: "\<not> ToBoolean N (get_prop ''nullOnError'' (inv_options ?i))"
    by (simp add: plain_invocation_def get_prop_def)
  show ?thesis
  proof (cases "cb_error ?cb")
    case (Some e)
    then show ?thesis
      by (simp add: getVersion_def assms ex capture_callback_def no Let_def)
  next
    case None
    show ?thesis
    proof (cases "match_version (trim (cb_stdout ?cb))")
      case nomatch: None
      with None show ?thesis
        by (simp add: getVersion_def assms ex capture_callback_def Let_def)
    next
      case (Some vb)
      obtain v b where vb: "vb = (v, b)" by (cases vb)
      with Some have "v \<noteq> []" by (simp add: match_version_iff)
      with None Some vb show ?thesis
        by (simp add: getVersion_def assms ex capture_callback_def Let_def)
    qed
  qed
qed

lemma getVersion_settles: "version (fst (snd (getVersion N cp this))) \<noteq> VNull"
proof (cases "version this = VNull")
  case True
  show ?thesis
    unfolding getVersion_query[OF True]
    by (simp add: Let_def split: option.splits prod.splits)
next
  case False
  then show ?thesis by (simp add: getVersion_cached)
qed

lemma getVersion_returns:
  "fst (getVersion N cp this) =
     (if ToBoolean N (version (fst (snd (getVersion N cp this))))
      then version (fst (snd (getVersion N cp this))) else VNull)"
  by (simp add: getVersion_def Let_def split: prod.splits)

lemma getSupervisorStatus_exec:
  "exec N cp file (\<lambda>r. []) [VStr ''svc'', VStr ''status''] =
     ((let cb = cp file (plain_invocation N [VStr ''svc'', VStr ''status''] (\<lambda>r. [])) in
       case cb_error cb of
         None \<Rightarrow> Resolved (VStr (trim (cb_stdout cb)))
       | Some e \<Rightarrow> Rejected e (cb_stderr cb)),
      [(file, plain_invocation N [VStr ''svc'', VStr ''status''] (\<lambda>r. []))])"
  unfolding exec_plain[OF exec_prepare_status]
  by (simp add: capture_callback_def plain_invocation_def get_prop_def Let_def
        split: option.splits)


section \<open>Facts about the spawned handle\<close>


lemma capturePromise_after:
  "capturePromise (snd (captureOutput N input p)) = Some (fst (captureOutput N input p))"
  by (simp add: captureOutput_def write_input_def Let_def split: option.splits)

lemma captureOutput_again:
  "capturePromise p = Some k \<Longrightarrow>
   fst (captureOutput N input p) = k \<and> captures (snd (captureOutput N input p)) = captures p"
  by (simp add: captureOutput_def write_input_def)

lemma process_step_keeps:
  "capturePromise p = Some k \<Longrightarrow>
   capturePromise (process_step N e p) = Some k \<and>
   length (captures (process_step N e p)) = length (captures p)"
  by (cases e) (simp_all add: on_data_def on_exit_def captureOutput_def write_input_def)

lemma process_steps_keep:
  "capturePromise p = Some k \<Longrightarrow>
   capturePromise (fold (process_step N) events p) = Some k \<and>
   length (captures (fold (process_step N) events p)) = length (captures p)"
proof (induction events arbitrary: p)
  case Nil
  then show ?case by simp
next
  case (Cons e events)
  from process_step_keeps[OF Cons.prems, of N e] Cons.IH[of "process_step N e p"]
  show ?case by simp
qed


section \<open>Claims about the argument scan\<close>

lemmas scan_eval =
  argv_of_def strategy_of_def options_of_def heap_after_def error_of_def exec_prepare_def
  init_locals_def final_argv_def select_strategy_def scan_object_def extract_option_def extract_env_def extract_options_def
  extract_passthrough_def extract_wait_def push_flags_def flag_args_def copy_entries_def
  has_prop_def get_prop_def delete_prop_def int_ops_def empty_heap_def dec_nat.simps
  digit_char_def

lemmas spec_eval =
  marshalled_argv_def strip_directives_def deleted_directives_def flag_spec_def flag_name_def
  is_string_def supported_def int_ops_def empty_heap_def dec_nat.simps digit_char_def

text \<open>
  C1, as stated: the first string-or-number element that arrives while no command is
  assigned becomes the subcommand. It fails for a number: in \<open>exec(5, 'a')\<close> the number
  arrives first, yet the subcommand is \<open>a\<close> and \<open>5\<close> is an ordinary argument after it.
\<close>

theorem number_is_never_the_subcommand:
  "argv_of (exec_prepare int_ops empty_heap [VNum 5, VStr ''a'']) = Some [VStr ''a'', VStr ''5'']"
  by (simp add: scan_eval)

text \<open>
  C1, amended: for every argument list of non-empty strings, truthy numbers and option
  maps, the first string is the subcommand and is the first element of the final argument
  vector; every number and every other string follows as its string form, and every option
  map as its flags, in the order of the call. When there is no string, no subcommand is
  prepended.
\<close>

theorem exec_argv_marshalled:
  assumes "\<forall>a\<in>set args. supported N a"
  shows "argv_of (exec_prepare N h args) = Some (marshalled_argv N h args)"
proof -
  have unset: "\<not> ToBoolean N (command (init_locals N h))" by simp
  from scan_args_command_unset[OF assms unset] obtain st' where
    run: "scan_args N (init_locals N h) args = Inr st'" and
    res: "(case find is_string args of
              None \<Rightarrow> command st' = command (init_locals N h) \<and>
                commandArgs st' = commandArgs (init_locals N h) @
                  concat (map (arg_tokens N (heap (init_locals N h))) args)
            | Some c \<Rightarrow> command st' = c \<and>
                commandArgs st' = commandArgs (init_locals N h) @
                  concat (map (arg_tokens N (heap (init_locals N h))) (remove1 c args)))"
    by blast
  show ?thesis
  proof (cases "find is_string args")
    case None
    with run res show ?thesis
      by (simp add: argv_of_def exec_prepare_def final_argv_def marshalled_argv_def)
  next
    case (Some c)
    from find_is_string_truthy[OF Some assms] have "ToBoolean N c" .
    with Some run res show ?thesis
      by (simp add: argv_of_def exec_prepare_def final_argv_def marshalled_argv_def)
  qed
qed

theorem exec_argv_marshalled_witness:
  "list_all (supported int_ops) [VNum 7, VStr ''pkg'', VObj 0, VStr ''install'', VNum 12] \<and>
   argv_of (exec_prepare int_ops flags_heap [VNum 7, VStr ''pkg'', VObj 0, VStr ''install'', VNum 12])
     = Some [VStr ''pkg'', VStr ''7'', VStr ''--verbose'', VStr ''-n'', VNum 3, VStr ''install'',
             VStr ''12'']"
proof -
  let ?args = "[VNum 7, VStr ''pkg'', VObj 0, VStr ''install'', VNum 12] :: int jsval list"
  have h: "\<forall>a\<in>set ?args. supported int_ops a"
    by (simp add: supported_def int_ops_def)
  have m: "marshalled_argv int_ops flags_heap ?args =
             [VStr ''pkg'', VStr ''7'', VStr ''--verbose'', VStr ''-n'', VNum 3, VStr ''install'',
              VStr ''12'']"
    by (simp add: spec_eval flags_heap_def)
  from exec_argv_marshalled[OF h, of flags_heap]
  have "argv_of (exec_prepare int_ops flags_heap ?args) =
          Some [VStr ''pkg'', VStr ''7'', VStr ''--verbose'', VStr ''-n'', VNum 3, VStr ''install'',
                VStr ''12'']"
    unfolding m .
  with h show ?thesis by (simp only: list_all_iff simp_thms)
qed

text \<open>
  C10, as stated: every option map passed in loses its directive keys. It fails for a map
  that the scan does not reach. In \<open>exec(true, { verbose: true, q: false, n: 3, $spawn:
  true })\<close> the scan raises at \<open>true\<close>, before the map, and the map keeps \<open>$spawn\<close>; in
  \<open>exec('svc', 0, { ... })\<close> the loop ends at the falsy \<open>0\<close>, with the same effect.
\<close>

theorem unreached_map_keeps_directives:
  "heap_after (exec_prepare int_ops flags_heap [VBool True, VObj 0]) 0
     = [(''verbose'', VBool True), (''q'', VBool False), (''n'', VNum 3), (''$spawn'', VBool True)] \<and>
   heap_after (exec_prepare int_ops flags_heap [VStr ''svc'', VNum 0, VObj 0]) 0
     = [(''verbose'', VBool True), (''q'', VBool False), (''n'', VNum 3), (''$spawn'', VBool True)]"
  by (simp add: scan_eval flags_heap_def)

text \<open>
  C10, amended: \<open>exec\<close> mutates the caller's option maps in place. Every option map that
  the scan reaches (every argument before it is a non-empty string, a truthy number or an
  option map) is left, whether \<open>exec\<close> then runs the binary or a later argument makes it
  fail, as the caller's object with exactly the keys \<open>$nullOnError\<close>, \<open>$spawn\<close>, \<open>$shell\<close>,
  \<open>$env\<close>, \<open>$preserveEnv\<close>, \<open>$passthrough\<close> and \<open>$wait\<close> deleted: none of the seven is
  present afterwards, \<open>$options\<close> is present exactly if it was before, and the other
  properties keep their values and order. An object that is not an argument is unchanged.
\<close>

theorem exec_deletes_directives_of_reached_maps:
  assumes "args = pre @ VObj r # post"
    and "\<forall>a\<in>set pre. supported N a"
  shows "heap_after (exec_prepare N h args) r = strip_directives (h r) \<and>
         (\<forall>k\<in>set deleted_directives. \<not> has_prop k (heap_after (exec_prepare N h args) r)) \<and>
         (has_prop ''$options'' (heap_after (exec_prepare N h args) r)
            \<longleftrightarrow> has_prop ''$options'' (h r)) \<and>
         (\<forall>r'. VObj r' \<notin> set args \<longrightarrow> heap_after (exec_prepare N h args) r' = h r')"
proof -
  have "supported N (VObj r)" by (simp add: supported_def)
  then have "takeWhile (supported N) args = pre @ VObj r # takeWhile (supported N) post"
    using assms by (simp add: takeWhile_append2)
  then have reached: "VObj r \<in> set (takeWhile (supported N) args)" by simp
  from heap_after_exec_prepare[of N h args r] reached
  have eq: "heap_after (exec_prepare N h args) r = strip_directives (h r)" by simp
  have gone: "\<forall>k\<in>set deleted_directives. \<not> has_prop k (heap_after (exec_prepare N h args) r)"
    by (simp add: eq has_prop_strip)
  have kept: "has_prop ''$options'' (heap_after (exec_prepare N h args) r)
                \<longleftrightarrow> has_prop ''$options'' (h r)"
    by (simp add: eq has_prop_strip deleted_directives_def)
  have frame: "\<forall>r'. VObj r' \<notin> set args \<longrightarrow> heap_after (exec_prepare N h args) r' = h r'"
  proof (intro allI impI)
    fix r' assume "VObj r' \<notin> set args"
    then have "VObj r' \<notin> set (takeWhile (supported N) args)"
      by (auto dest: set_takeWhileD)
    with heap_after_exec_prepare[of N h args r'] show "heap_after (exec_prepare N h args) r' = h r'"
      by simp
  qed
  from eq gone kept frame show ?thesis by blast
qed

theorem exec_deletes_directives_of_reached_maps_witness:
  "heap_after (exec_prepare int_ops flags_heap [VStr ''pkg'', VObj 0, VBool True]) 0
     = [(''verbose'', VBool True), (''q'', VBool False), (''n'', VNum 3)] \<and>
   heap_after (exec_prepare int_ops flags_heap [VStr ''pkg'', VObj 0, VBool True]) 1 = flags_heap 1"
proof -
  let ?args = "[VStr ''pkg'', VObj 0, VBool True] :: int jsval list"
  have split: "?args = [VStr ''pkg''] @ VObj 0 # [VBool True]" by simp
  have pre: "\<forall>a\<in>set [VStr ''pkg'']. supported int_ops a" by (simp add: supported_def)
  have other: "VObj 1 \<notin> set ?args" by simp
  have stripped: "strip_directives (flags_heap 0)
                    = [(''verbose'', VBool True), (''q'', VBool False), (''n'', VNum 3)]"
    by (simp add: strip_directives_def deleted_directives_def flags_heap_def)
  from exec_deletes_directives_of_reached_maps[OF split pre, of flags_heap] other
  have "heap_after (exec_prepare int_ops flags_heap ?args) 0 = strip_directives (flags_heap 0)"
    and b: "heap_after (exec_prepare int_ops flags_heap ?args) 1 = flags_heap 1"
    by blast+
  then have a: "heap_after (exec_prepare int_ops flags_heap ?args) 0
               = [(''verbose'', VBool True), (''q'', VBool False), (''n'', VNum 3)]"
    by (simp only: stripped)
  show ?thesis by (rule conjI[OF a b])
qed


lemmas exec_eval =
  exec_def capture_callback_def child_prints_def child_fails_def trim_def js_space_def
  spawned_def

text \<open>
  C3: every key that remains in an option map once the directives are deleted is emitted
  by the flag rule of the specification (\<open>flag_spec\<close>: one dash for a key of length 1, two
  dashes otherwise; the flag alone for \<open>true\<close>, nothing for \<open>false\<close>, the flag and then the
  value for anything else), in the order of the keys. First for the \<open>case 'object'\<close> branch
  in any state of the scan, then for a call of \<open>exec\<close> with one option map.
\<close>

theorem remaining_keys_become_flags:
  "commandArgs (scan_object N r st)
     = commandArgs st @ concat (map flag_spec (strip_directives (heap st r))) \<and>
   argv_of (exec_prepare N h [VObj r]) = Some (concat (map flag_spec (strip_directives (h r))))"
proof -
  have "\<forall>a\<in>set [VObj r]. supported N a" by (simp add: supported_def)
  from scan_args_command_unset[OF this, of "init_locals N h"]
  have "argv_of (exec_prepare N h [VObj r]) = Some (concat (map flag_spec (strip_directives (h r))))"
    by (auto simp: argv_of_def exec_prepare_def final_argv_def)
  then show ?thesis by (simp add: args_scan_object)
qed

theorem remaining_keys_become_flags_witness:
  "argv_of (exec_prepare int_ops flags_heap [VObj 0])
     = Some [VStr ''--verbose'', VStr ''-n'', VNum 3]"
proof -
  have "concat (map flag_spec (strip_directives (flags_heap 0)))
          = [VStr ''--verbose'', VStr ''-n'', VNum 3]"
    by (simp add: spec_eval flags_heap_def)
  with remaining_keys_become_flags[of int_ops 0 "init_locals int_ops flags_heap" flags_heap]
  show ?thesis by (simp only:)
qed

text \<open>
  C2 (the code departs from the claim): the directive \<open>$options\<close> is read but, unlike the
  other seven, never deleted, so the flag loop emits it. \<open>exec('pkg', { $options: { cwd:
  '/tmp' } })\<close> hands the binary the arguments \<open>pkg\<close>, \<open>--$options\<close> and the options
  object.
\<close>

theorem options_directive_emitted_as_flag:
  "argv_of (exec_prepare int_ops options_heap [VStr ''pkg'', VObj 0])
     = Some [VStr ''pkg'', VStr ''--$options'', VObj 1]"
  by (simp add: scan_eval options_heap_def)

text \<open>
  C5 (the code departs from the claim): a truthy unsupported argument such as \<open>true\<close>
  raises, but a falsy one ends the loop instead. \<open>exec(false)\<close> raises nothing and runs the
  binary with no arguments; \<open>exec('svc', undefined, 'status')\<close> runs \<open>hab svc\<close>.
\<close>

theorem falsy_unsupported_argument_not_rejected:
  "error_of (exec_prepare int_ops empty_heap [VBool True]) = Some UnhandledExecArgument \<and>
   error_of (exec_prepare int_ops empty_heap [VBool False]) = None \<and>
   argv_of (exec_prepare int_ops empty_heap [VBool False]) = Some [] \<and>
   exec int_ops (child_prints ''ok'') ''hab'' empty_heap [VBool False]
     = (Resolved (VStr ''ok''),
        [(''hab'', \<lparr> inv_strategy = Direct, inv_argv = [],
                     inv_options = [(''maxBuffer'', VNum 1048576)], inv_env = [],
                     inv_inherit_env = True, inv_heap = empty_heap \<rparr>)]) \<and>
   argv_of (exec_prepare int_ops empty_heap [VStr ''svc'', VUndefined, VStr ''status''])
     = Some [VStr ''svc'']"
  by (simp add: scan_eval exec_eval)







section \<open>Claims about running the binary\<close>




section \<open>Claims about the spawned handle\<close>

text \<open>
  C7: on any handle, after a first call of \<open>captureOutput\<close> and any events since (output
  data, the exit, further calls), a second call returns the very promise that the first
  call returned, and establishes nothing: the list of captures, and with it the state of
  that promise, is as it was before the call. On a freshly spawned handle there is exactly
  one capture ever, the one the first call established.
\<close>

theorem captureOutput_memoized:
  "fst (captureOutput N input2 (fold (process_step N) events (snd (captureOutput N input1 p))))
     = fst (captureOutput N input1 p) \<and>
   captures (snd (captureOutput N input2 (fold (process_step N) events (snd (captureOutput N input1 p)))))
     = captures (fold (process_step N) events (snd (captureOutput N input1 p))) \<and>
   length (captures (fold (process_step N) events (snd (captureOutput N input1 (spawned pt))))) = 1"
proof -
  let ?p1 = "snd (captureOutput N input1 p)"
  let ?p2 = "fold (process_step N) events ?p1"
  have "capturePromise ?p2 = Some (fst (captureOutput N input1 p))"
    using process_steps_keep[OF capturePromise_after] by blast
  from captureOutput_again[OF this]
  have a: "fst (captureOutput N input2 ?p2) = fst (captureOutput N input1 p)"
    and b: "captures (snd (captureOutput N input2 ?p2)) = captures ?p2"
    by blast+
  let ?q1 = "snd (captureOutput N input1 (spawned pt))"
  have "length (captures (fold (process_step N) events ?q1)) = length (captures ?q1)"
    using process_steps_keep[OF capturePromise_after] by blast
  also have "\<dots> = 1"
    by (simp add: captureOutput_def spawned_def write_input_def Let_def)
  finally show ?thesis using a b by blast
qed

theorem captureOutput_memoized_witness:
  "fst (captureOutput int_ops (VStr ''again'')
          (fold (process_step int_ops) [Data ''out'', Exit (Some 0)]
             (snd (captureOutput int_ops VNull (spawned False)))))
     = 0 \<and>
   captures (snd (captureOutput int_ops (VStr ''again'')
          (fold (process_step int_ops) [Data ''out'', Exit (Some 0)]
             (snd (captureOutput int_ops VNull (spawned False))))))
     = [\<lparr> cap_output = ''out'', cap_state = Fulfilled ''out'' \<rparr>]"
  using captureOutput_memoized[of int_ops "VStr ''again''" "[Data ''out'', Exit (Some 0)]" VNull
          "spawned False" False]
  by (simp add: captureOutput_def spawned_def write_input_def Let_def on_data_def on_exit_def
        settle_def)


section \<open>Claims about the helper queries\<close>

lemmas text_eval =
  trim_def js_space_def match_version_def is_digit_def Let_def underscore_object_def
  new_hab_def child_prints_def child_fails_def

text \<open>
  C8: with no cached version (\<open>this.version === null\<close>), \<open>getVersion\<close> launches the binary
  once, with the single argument \<open>--version\<close> and the direct strategy. If that succeeds and
  the trimmed output matches \<open>hab <version>/<build>\<close>, it stores both groups on the instance
  and returns the version; on a failed launch or a mismatch it stores \<open>false\<close> and returns
  \<open>null\<close>. With \<open>false\<close> stored it launches nothing and returns \<open>null\<close>. After any call,
  a further call launches nothing and returns what the call before it returned. The
  pattern matches exactly the strings \<open>hab \<close>, a non-empty version without a slash, a
  slash, a non-empty run of digits.
\<close>

theorem getVersion_caches:
  "getVersion N cp this =
     (if version this = VNull then
        (let i = plain_invocation N [VStr ''--version''] version_query_heap;
             cb = cp (this_command this) i in
         case (if cb_error cb = None then match_version (trim (cb_stdout cb)) else None) of
           Some (v, b) \<Rightarrow>
             (VStr v, this\<lparr> version := VStr v, build := VStr b \<rparr>, [(this_command this, i)])
         | None \<Rightarrow> (VNull, this\<lparr> version := VBool False \<rparr>, [(this_command this, i)]))
      else (if ToBoolean N (version this) then version this else VNull, this, [])) \<and>
   (version this = VBool False \<longrightarrow> getVersion N cp this = (VNull, this, [])) \<and>
   snd (snd (getVersion N cp' (fst (snd (getVersion N cp this))))) = [] \<and>
   fst (getVersion N cp' (fst (snd (getVersion N cp this)))) = fst (getVersion N cp this) \<and>
   (match_version s = Some (v, b) \<longleftrightarrow>
      s = ''hab '' @ v @ ''/'' @ b \<and> v \<noteq> [] \<and> CHR ''/'' \<notin> set v \<and> b \<noteq> [] \<and>
      list_all is_digit b)"
proof -
  let ?this1 = "fst (snd (getVersion N cp this))"
  have first: "getVersion N cp this =
     (if version this = VNull then
        (let i = plain_invocation N [VStr ''--version''] version_query_heap;
             cb = cp (this_command this) i in
         case (if cb_error cb = None then match_version (trim (cb_stdout cb)) else None) of
           Some (v, b) \<Rightarrow>
             (VStr v, this\<lparr> version := VStr v, build := VStr b \<rparr>, [(this_command this, i)])
         | None \<Rightarrow> (VNull, this\<lparr> version := VBool False \<rparr>, [(this_command this, i)]))
      else (if ToBoolean N (version this) then version this else VNull, this, []))"
    using getVersion_query[of this N cp] getVersion_cached[of this N cp] by simp
  have unavailable: "version this = VBool False \<longrightarrow> getVersion N cp this = (VNull, this, [])"
    by (simp add: getVersion_cached)
  have again: "getVersion N cp' ?this1 =
      (if ToBoolean N (version ?this1) then version ?this1 else VNull, ?this1, [])"
    by (rule getVersion_cached[OF getVersion_settles])
  have quiet: "snd (snd (getVersion N cp' ?this1)) = []"
    by (simp add: again)
  have same: "fst (getVersion N cp' ?this1) = fst (getVersion N cp this)"
    unfolding again using getVersion_returns[of N cp this] by simp
  from first unavailable quiet same match_version_iff[of s v b] show ?thesis by blast
qed

theorem getVersion_caches_witness:
  "getVersion int_ops (child_prints (''hab 1.6.1234/20230101000000'' @ [CHR 0x0A])) (new_hab ''hab'')
     = (VStr ''1.6.1234'',
        \<lparr> this_command = ''hab'', version = VStr ''1.6.1234'', build = VStr ''20230101000000'' \<rparr>,
        [(''hab'', plain_invocation int_ops [VStr ''--version''] version_query_heap)]) \<and>
   getVersion int_ops (child_prints ''hab 1.6.1234'') (new_hab ''hab'')
     = (VNull,
        \<lparr> this_command = ''hab'', version = VBool False, build = VNull \<rparr>,
        [(''hab'', plain_invocation int_ops [VStr ''--version''] version_query_heap)]) \<and>
   getVersion int_ops (child_prints ''hab 1.6.1234/20230101000000'')
       \<lparr> this_command = ''hab'', version = VBool False, build = VNull \<rparr>
     = (VNull, \<lparr> this_command = ''hab'', version = VBool False, build = VNull \<rparr>, [])"
proof -
  have a: "getVersion int_ops (child_prints (''hab 1.6.1234/20230101000000'' @ [CHR 0x0A])) (new_hab ''hab'')
     = (VStr ''1.6.1234'',
        \<lparr> this_command = ''hab'', version = VStr ''1.6.1234'', build = VStr ''20230101000000'' \<rparr>,
        [(''hab'', plain_invocation int_ops [VStr ''--version''] version_query_heap)])"
    using getVersion_caches[where N = int_ops
        and cp = "child_prints (''hab 1.6.1234/20230101000000'' @ [CHR 0x0A])"
        and this = "new_hab ''hab''" and cp' = "child_prints []" and s = "[]" and v = "[]" and b = "[]"]
    by (simp add: text_eval)
  have b: "getVersion int_ops (child_prints ''hab 1.6.1234'') (new_hab ''hab'')
     = (VNull,
        \<lparr> this_command = ''hab'', version = VBool False, build = VNull \<rparr>,
        [(''hab'', plain_invocation int_ops [VStr ''--version''] version_query_heap)])"
    using getVersion_caches[where N = int_ops and cp = "child_prints ''hab 1.6.1234''"
        and this = "new_hab ''hab''" and cp' = "child_prints []" and s = "[]" and v = "[]" and b = "[]"]
    by (simp add: text_eval)
  have c: "getVersion int_ops (child_prints ''hab 1.6.1234/20230101000000'')
       \<lparr> this_command = ''hab'', version = VBool False, build = VNull \<rparr>
     = (VNull, \<lparr> this_command = ''hab'', version = VBool False, build = VNull \<rparr>, [])"
    using getVersion_caches[where N = int_ops and cp = "child_prints ''hab 1.6.1234/20230101000000''"
        and this = "\<lparr> this_command = ''hab'', version = VBool False, build = VNull \<rparr>"
        and cp' = "child_prints []" and s = "[]" and v = "[]" and b = "[]"]
    by simp
  show ?thesis by (rule conjI[OF a conjI[OF b c]])
qed

text \<open>
  C9: \<open>getSupervisorStatus\<close> runs \<open>svc status\<close> with the direct strategy and returns \<open>false\<close>
  when that fails. Otherwise it splits the trimmed output into lines; a single line (the
  header alone, or empty output) gives the empty array; else the first line, split at runs
  of two or more whitespace characters, gives the column names, and every later line,
  split the same way, gives one record made by \<open>_.object\<close> from the names and the line's
  fields. For distinct names that record pairs the i-th name with the i-th field
  (\<open>undefined\<close> where the line has fewer fields).
\<close>

theorem getSupervisorStatus_rows:
  "getSupervisorStatus N cp this =
     (let cb = cp (this_command this)
                 (plain_invocation N [VStr ''svc'', VStr ''status''] (\<lambda>r. [])) in
      if cb_error cb \<noteq> None then StatusFalse
      else (let lines = split_lines (trim (cb_stdout cb)) in
            if length lines = 1 then Services []
            else Services (map (\<lambda>line. underscore_object (split_columns (hd lines))
                                         (split_columns line))
                             (tl lines)))) \<and>
   (distinct cols \<longrightarrow>
      (underscore_object cols vals :: 'n obj)
        = map (\<lambda>i. (cols ! i, if i < length vals then VStr (vals ! i) else VUndefined))
            [0..<length cols])"
proof -
  let ?cb = "cp (this_command this) (plain_invocation N [VStr ''svc'', VStr ''status''] (\<lambda>r. []))"
  have "getSupervisorStatus N cp this =
     (if cb_error ?cb \<noteq> None then StatusFalse
      else (let lines = split_lines (trim (cb_stdout ?cb)) in
            if length lines = 1 then Services []
            else Services (map (\<lambda>line. underscore_object (split_columns (hd lines))
                                         (split_columns line))
                             (tl lines))))"
  proof (cases "cb_error ?cb")
    case None
    then show ?thesis
      by (simp add: getSupervisorStatus_def getSupervisorStatus_exec Let_def
            status_rows_header[OF split_lines_nonempty])
  next
    case (Some e)
    then show ?thesis
      by (simp add: getSupervisorStatus_def getSupervisorStatus_exec Let_def)
  qed
  moreover have "distinct cols \<longrightarrow>
      (underscore_object cols vals :: 'n obj)
        = map (\<lambda>i. (cols ! i, if i < length vals then VStr (vals ! i) else VUndefined))
            [0..<length cols]"
    by (simp add: underscore_object_distinct)
  ultimately show ?thesis by (simp only: Let_def simp_thms)
qed


theorem getSupervisorStatus_rows_witness:
  "getSupervisorStatus int_ops
       (child_prints (''NAME  VERSION'' @ [CHR 0x0A] @ ''core/foo  1.2.3'' @ [CHR 0x0A]))
       (new_hab ''hab'')
     = Services [[(''NAME'', VStr ''core/foo''), (''VERSION'', VStr ''1.2.3'')]] \<and>
   getSupervisorStatus int_ops (child_prints ''NAME  VERSION'') (new_hab ''hab'') = Services [] \<and>
   getSupervisorStatus int_ops (child_fails ''no supervisor'') (new_hab ''hab'') = StatusFalse"
proof -
  have a: "getSupervisorStatus int_ops
       (child_prints (''NAME  VERSION'' @ [CHR 0x0A] @ ''core/foo  1.2.3'' @ [CHR 0x0A]))
       (new_hab ''hab'')
     = Services [[(''NAME'', VStr ''core/foo''), (''VERSION'', VStr ''1.2.3'')]]"
    using getSupervisorStatus_rows[where N = int_ops
        and cp = "child_prints (''NAME  VERSION'' @ [CHR 0x0A] @ ''core/foo  1.2.3'' @ [CHR 0x0A])"
        and this = "new_hab ''hab''" and cols = "[]" and vals = "[]"]
    by (simp add: text_eval)
  have b: "getSupervisorStatus int_ops (child_prints ''NAME  VERSION'') (new_hab ''hab'')
             = Services []"
    using getSupervisorStatus_rows[where N = int_ops and cp = "child_prints ''NAME  VERSION''"
        and this = "new_hab ''hab''" and cols = "[]" and vals = "[]"]
    by (simp add: text_eval)
  have c: "getSupervisorStatus int_ops (child_fails ''no supervisor'') (new_hab ''hab'')
             = StatusFalse"
    using getSupervisorStatus_rows[where N = int_ops and cp = "child_fails ''no supervisor''"
        and this = "new_hab ''hab''" and cols = "[]" and vals = "[]"]
    by (simp add: text_eval)
  show ?thesis by (rule conjI[OF a conjI[OF b c]])
qed


end
